theory Spec2Isabelle
  imports Complex_Main "HOL-Library.Word" "HOL-Library.Sublist"
begin

unbundle bit_operations_syntax

section \<open>The line calculator of calc.cpp\<close>

text \<open>
  The calculator keeps one accumulator of type double and an angle mode. Each input line
  is recognised by \<open>parse_op\<close>, for binary operations an argument is read by
  \<open>parse_arg\<close>, and the operation is applied by \<open>nullary\<close>, \<open>unary\<close> or \<open>binary\<close>.
  Messages written to \<open>std::cerr\<close> are returned as a list of diagnostics, in the order
  in which they are written; the reference parameters \<open>i\<close> and \<open>rad_on\<close> are returned
  updated.
\<close>

subsection \<open>Doubles\<close>

text \<open>
  A double is its IEEE 754 binary64 bit pattern: bit 63 is the sign, bits 62..52 the
  biased exponent, bits 51..0 the fraction. The operations that do not round
  (comparison, \<open>std::abs\<close>, unary minus) are defined on the bits. A pattern whose exponent
  is all ones and whose fraction is not zero is a NaN, and every ordered comparison with
  a NaN is false, while \<open>!=\<close> is true.
\<close>

type_synonym double = "64 word"

definition magnitude :: "double \<Rightarrow> double" where
  "magnitude x = x AND 0x7FFFFFFFFFFFFFFF"

definition is_nan :: "double \<Rightarrow> bool" where
  "is_nan x = (0x7FF0000000000000 < magnitude x)"

definition fkey :: "double \<Rightarrow> int" where
  "fkey x = (if bit x 63 then - uint (magnitude x) else uint (magnitude x))"

definition flt :: "double \<Rightarrow> double \<Rightarrow> bool" where
  "flt a b = (\<not> is_nan a \<and> \<not> is_nan b \<and> fkey a < fkey b)"

definition fle :: "double \<Rightarrow> double \<Rightarrow> bool" where
  "fle a b = (\<not> is_nan a \<and> \<not> is_nan b \<and> fkey a \<le> fkey b)"

definition fgt :: "double \<Rightarrow> double \<Rightarrow> bool" where
  "fgt a b = flt b a"

definition fge :: "double \<Rightarrow> double \<Rightarrow> bool" where
  "fge a b = fle b a"

definition feq :: "double \<Rightarrow> double \<Rightarrow> bool" where
  "feq a b = (\<not> is_nan a \<and> \<not> is_nan b \<and> fkey a = fkey b)"

definition fne :: "double \<Rightarrow> double \<Rightarrow> bool" where
  "fne a b = (\<not> feq a b)"

definition fabs :: "double \<Rightarrow> double" where
  "fabs x = magnitude x"

definition fneg :: "double \<Rightarrow> double" where
  "fneg x = x XOR 0x8000000000000000"

text \<open>The value of a finite double, for reading the constants below.\<close>

definition valof :: "double \<Rightarrow> rat" where
  "valof x =
     (let e = unat (drop_bit 52 (magnitude x));
          f = unat (x AND 0xFFFFFFFFFFFFF);
          s = (if bit x 63 then - 1 else 1)
      in if e = 0 then s * (of_nat f / 2 ^ 1074)
         else if e < 1075 then s * (of_nat (2 ^ 52 + f) / 2 ^ (1075 - e))
         else s * of_nat ((2 ^ 52 + f) * 2 ^ (e - 1075)))"

definition dbl_0 :: double where "dbl_0 = 0"
definition dbl_1 :: double where "dbl_1 = 0x3FF0000000000000"
definition dbl_2 :: double where "dbl_2 = 0x4000000000000000"
definition dbl_10 :: double where "dbl_10 = 0x4024000000000000"
definition dbl_180 :: double where "dbl_180 = 0x4066800000000000"
definition M_PI :: double where "M_PI = 0x400921FB54442D18"
definition INFINITY :: double where "INFINITY = 0x7FF0000000000000"
definition qNaN :: double where "qNaN = 0x7FF8000000000000"

text \<open>The constants of the anonymous namespace of calc.cpp.\<close>

definition max_decimal_digits :: nat where "max_decimal_digits = 10"
definition eps :: double where "eps = 0x3DDB7CDFD9D7BDBB"
definition inf_const :: double where "inf_const = 0x434D02967C31CDB5"

text \<open>
  The arithmetic of the machine and the functions of the header cmath are not code of the
  program. They are a parameter of every function that computes with doubles, so that
  each theorem holds whatever they return.
\<close>

record fpu =
  fadd :: "double \<Rightarrow> double \<Rightarrow> double"
  fsub :: "double \<Rightarrow> double \<Rightarrow> double"
  fmul :: "double \<Rightarrow> double \<Rightarrow> double"
  fdiv :: "double \<Rightarrow> double \<Rightarrow> double"
  c_sqrt :: "double \<Rightarrow> double"
  c_sin :: "double \<Rightarrow> double"
  c_cos :: "double \<Rightarrow> double"
  c_tan :: "double \<Rightarrow> double"
  c_asin :: "double \<Rightarrow> double"
  c_acos :: "double \<Rightarrow> double"
  c_atan :: "double \<Rightarrow> double"
  c_pow :: "double \<Rightarrow> double \<Rightarrow> double"
  c_remainder :: "double \<Rightarrow> double \<Rightarrow> double"

text \<open>
  The four arithmetic operations of IEEE 754 binary64 in the default rounding mode, to
  nearest with ties to even. A finite double is \<open>mantissa * 2 ^ exponent\<close> with a sign;
  \<open>round_pack s M e sticky\<close> rounds the number \<open>M * 2 ^ e\<close>, plus a fraction of
  \<open>2 ^ e\<close> below one unit when \<open>sticky\<close> is set, to a double of sign \<open>s\<close>. Which NaN an
  invalid operation returns depends on the machine; here it is the quiet NaN.
\<close>

definition is_inf :: "double \<Rightarrow> bool" where
  "is_inf x = (magnitude x = 0x7FF0000000000000)"

definition is_zero :: "double \<Rightarrow> bool" where
  "is_zero x = (magnitude x = 0)"

definition mantissa :: "double \<Rightarrow> nat" where
  "mantissa x =
     (if drop_bit 52 (magnitude x) = 0 then unat (x AND 0xFFFFFFFFFFFFF)
      else 2 ^ 52 + unat (x AND 0xFFFFFFFFFFFFF))"

definition exponent :: "double \<Rightarrow> int" where
  "exponent x =
     (if drop_bit 52 (magnitude x) = 0 then - 1074
      else int (unat (drop_bit 52 (magnitude x))) - 1075)"

definition with_sign :: "bool \<Rightarrow> double \<Rightarrow> double" where
  "with_sign s x = (if s then x OR 0x8000000000000000 else x)"

fun bit_length :: "nat \<Rightarrow> nat" where
  "bit_length n = (if n = 0 then 0 else bit_length (n div 2) + 1)"

declare bit_length.simps [simp del]

definition round_pack :: "bool \<Rightarrow> nat \<Rightarrow> int \<Rightarrow> bool \<Rightarrow> double" where
  "round_pack s M e sticky =
     (let q = max (e + int (bit_length M) - 53) (- 1074);
          t = (if q \<le> e then M * 2 ^ nat (e - q) else M div 2 ^ nat (q - e));
          r = (if q \<le> e then 0 else M mod 2 ^ nat (q - e));
          h = (if q \<le> e then 1 else 2 ^ (nat (q - e) - 1));
          u = (if h < r \<or> (r = h \<and> (sticky \<or> odd t)) then t + 1 else t);
          bits = nat (q + 1074) * 2 ^ 52 + u
      in with_sign s (if 0x7FF0000000000000 \<le> bits then INFINITY else of_nat bits))"

definition ieee_add :: "double \<Rightarrow> double \<Rightarrow> double" where
  "ieee_add a b =
     (if is_nan a \<or> is_nan b then qNaN
      else if is_inf a then (if is_inf b \<and> bit a 63 \<noteq> bit b 63 then qNaN else a)
      else if is_inf b then b
      else
        (let e = min (exponent a) (exponent b);
             x = (if bit a 63 then - 1 else 1) * int (mantissa a) * 2 ^ nat (exponent a - e);
             y = (if bit b 63 then - 1 else 1) * int (mantissa b) * 2 ^ nat (exponent b - e);
             z = x + y
         in if z = 0 then with_sign (bit a 63 \<and> bit b 63) 0
            else round_pack (z < 0) (nat \<bar>z\<bar>) e False))"

definition ieee_sub :: "double \<Rightarrow> double \<Rightarrow> double" where
  "ieee_sub a b = ieee_add a (fneg b)"

definition ieee_mul :: "double \<Rightarrow> double \<Rightarrow> double" where
  "ieee_mul a b =
     (if is_nan a \<or> is_nan b then qNaN
      else if is_inf a \<or> is_inf b then
        (if is_zero a \<or> is_zero b then qNaN else with_sign (bit a 63 \<noteq> bit b 63) INFINITY)
      else if is_zero a \<or> is_zero b then with_sign (bit a 63 \<noteq> bit b 63) 0
      else round_pack (bit a 63 \<noteq> bit b 63) (mantissa a * mantissa b)
             (exponent a + exponent b) False)"

definition ieee_div :: "double \<Rightarrow> double \<Rightarrow> double" where
  "ieee_div a b =
     (if is_nan a \<or> is_nan b then qNaN
      else if is_inf a then
        (if is_inf b then qNaN else with_sign (bit a 63 \<noteq> bit b 63) INFINITY)
      else if is_inf b then with_sign (bit a 63 \<noteq> bit b 63) 0
      else if is_zero b then
        (if is_zero a then qNaN else with_sign (bit a 63 \<noteq> bit b 63) INFINITY)
      else if is_zero a then with_sign (bit a 63 \<noteq> bit b 63) 0
      else round_pack (bit a 63 \<noteq> bit b 63) (mantissa a * 2 ^ 110 div mantissa b)
             (exponent a - exponent b - 110) (mantissa a * 2 ^ 110 mod mantissa b \<noteq> 0))"

text \<open>
  The IEEE remainder, \<open>std::remainder\<close>: \<open>a - n * b\<close> where \<open>n\<close> is the integer nearest
  to \<open>a / b\<close>, the even one in a tie. The result is exact.
\<close>

definition ieee_remainder :: "double \<Rightarrow> double \<Rightarrow> double" where
  "ieee_remainder a b =
     (if is_nan a \<or> is_nan b \<or> is_inf a \<or> is_zero b then qNaN
      else if is_inf b then a
      else
        (let e = min (exponent a) (exponent b);
             x = int (mantissa a) * 2 ^ nat (exponent a - e);
             y = int (mantissa b) * 2 ^ nat (exponent b - e);
             n = x div y;
             r = x mod y;
             z = (if 2 * r < y \<or> (2 * r = y \<and> even n) then r else r - y)
         in if z = 0 then with_sign (bit a 63) 0
            else round_pack (bit a 63 \<noteq> (z < 0)) (nat \<bar>z\<bar>) e False))"

text \<open>
  An instance for closed examples: the arithmetic and the remainder are the IEEE
  operations above. The other functions of the C library are given where Annex F of the
  C standard fixes their value: at zero, \<open>acos\<close> at 1, \<open>sqrt\<close> at infinity and \<open>pow\<close>
  with the exponent zero. They are not defined elsewhere; there this instance returns
  the quiet NaN, which is their value on a NaN argument, and the value of \<open>sin\<close>, \<open>cos\<close>
  and \<open>tan\<close> on an infinite one.
\<close>

definition ieee_fpu :: fpu where
  "ieee_fpu = \<lparr> fadd = ieee_add, fsub = ieee_sub, fmul = ieee_mul, fdiv = ieee_div,
     c_sqrt = (\<lambda>a. if is_zero a \<or> a = INFINITY then a else qNaN),
     c_sin = (\<lambda>a. if is_zero a then a else qNaN),
     c_cos = (\<lambda>a. if is_zero a then dbl_1 else qNaN),
     c_tan = (\<lambda>a. if is_zero a then a else qNaN),
     c_asin = (\<lambda>a. if is_zero a then a else qNaN),
     c_acos = (\<lambda>a. if a = dbl_1 then dbl_0 else qNaN),
     c_atan = (\<lambda>a. if is_zero a then a else qNaN),
     c_pow = (\<lambda>a b. if is_zero b then dbl_1 else qNaN),
     c_remainder = ieee_remainder \<rparr>"

subsection \<open>Operations and diagnostics\<close>

datatype Op =
  ERR | SET | ADD | SUB | MUL | DIV | REM | NEG | POW | SQRT | SIN | COS | RAD | DEG
  | TAN | CTN | ASIN | ACOS | ATAN | ACTN

fun arity :: "Op \<Rightarrow> nat" where
  "arity ERR = 0"
| "arity RAD = 0"
| "arity DEG = 0"
| "arity SIN = 1"
| "arity COS = 1"
| "arity TAN = 1"
| "arity CTN = 1"
| "arity ASIN = 1"
| "arity ACOS = 1"
| "arity ATAN = 1"
| "arity ACTN = 1"
| "arity NEG = 1"
| "arity SQRT = 1"
| "arity SET = 2"
| "arity ADD = 2"
| "arity SUB = 2"
| "arity MUL = 2"
| "arity DIV = 2"
| "arity REM = 2"
| "arity POW = 2"

text \<open>One constructor for each message that the program writes to \<open>std::cerr\<close>.\<close>

datatype diag =
  Unknown_operation string
  | Suffix_left string
  | Bad_SQRT double
  | Bad_ASIN double
  | Bad_ACOS double
  | Bad_ATAN double
  | Bad_ACTN double
  | Bad_division double
  | Bad_remainder double

subsection \<open>The recogniser\<close>

text \<open>
  \<open>line[i]\<close> of a \<open>std::string\<close> is the null character at \<open>i = size()\<close>. The recogniser
  reads the next character only after a letter matched, so from a cursor inside the line
  it never reads beyond \<open>size()\<close>.
\<close>

definition char_at :: "string \<Rightarrow> nat \<Rightarrow> char" where
  "char_at line i = (if i < length line then line ! i else CHR 0x00)"

definition is_digit :: "char \<Rightarrow> bool" where
  "is_digit c = (c \<in> set ''0123456789'')"

definition rollback :: "string \<Rightarrow> nat \<Rightarrow> nat \<Rightarrow> Op \<times> nat \<times> diag list" where
  "rollback line i n = (ERR, i - n, [Unknown_operation line])"

definition parse_op :: "string \<Rightarrow> nat \<Rightarrow> Op \<times> nat \<times> diag list" where
  "parse_op line i =
    (let c = char_at line i; i = i + 1 in
     if is_digit c then (SET, i - 1, [])
     else if c = CHR ''+'' then (ADD, i, [])
     else if c = CHR ''-'' then (SUB, i, [])
     else if c = CHR ''*'' then (MUL, i, [])
     else if c = CHR ''/'' then (DIV, i, [])
     else if c = CHR ''%'' then (REM, i, [])
     else if c = CHR ''_'' then (NEG, i, [])
     else if c = CHR ''^'' then (POW, i, [])
     else if c = CHR ''A'' then
       (let c = char_at line i; i = i + 1 in
        if c = CHR ''C'' then
          (let c = char_at line i; i = i + 1 in
           if c = CHR ''O'' then
             (let c = char_at line i; i = i + 1 in
              if c = CHR ''S'' then (ACOS, i, []) else rollback line i 4)
           else if c = CHR ''T'' then
             (let c = char_at line i; i = i + 1 in
              if c = CHR ''N'' then (ACTN, i, []) else rollback line i 4)
           else rollback line i 3)
        else if c = CHR ''S'' then
          (let c = char_at line i; i = i + 1 in
           if c = CHR ''I'' then
             (let c = char_at line i; i = i + 1 in
              if c = CHR ''N'' then (ASIN, i, []) else rollback line i 4)
           else rollback line i 3)
        else if c = CHR ''T'' then
          (let c = char_at line i; i = i + 1 in
           if c = CHR ''A'' then
             (let c = char_at line i; i = i + 1 in
              if c = CHR ''N'' then (ATAN, i, []) else rollback line i 4)
           else rollback line i 3)
        else rollback line i 2)
     else if c = CHR ''S'' then
       (let c = char_at line i; i = i + 1 in
        if c = CHR ''Q'' then
          (let c = char_at line i; i = i + 1 in
           if c = CHR ''R'' then
             (let c = char_at line i; i = i + 1 in
              if c = CHR ''T'' then (SQRT, i, []) else rollback line i 4)
           else rollback line i 3)
        else if c = CHR ''I'' then
          (let c = char_at line i; i = i + 1 in
           if c = CHR ''N'' then (SIN, i, []) else rollback line i 3)
        else rollback line i 2)
     else if c = CHR ''C'' then
       (let c = char_at line i; i = i + 1 in
        if c = CHR ''O'' then
          (let c = char_at line i; i = i + 1 in
           if c = CHR ''S'' then (COS, i, []) else rollback line i 3)
        else if c = CHR ''T'' then
          (let c = char_at line i; i = i + 1 in
           if c = CHR ''N'' then (CTN, i, []) else rollback line i 3)
        else rollback line i 2)
     else if c = CHR ''R'' then
       (let c = char_at line i; i = i + 1 in
        if c = CHR ''A'' then
          (let c = char_at line i; i = i + 1 in
           if c = CHR ''D'' then (RAD, i, []) else rollback line i 3)
        else rollback line i 2)
     else if c = CHR ''D'' then
       (let c = char_at line i; i = i + 1 in
        if c = CHR ''E'' then
          (let c = char_at line i; i = i + 1 in
           if c = CHR ''G'' then (DEG, i, []) else rollback line i 3)
        else rollback line i 2)
     else if c = CHR ''T'' then
       (let c = char_at line i; i = i + 1 in
        if c = CHR ''A'' then
          (let c = char_at line i; i = i + 1 in
           if c = CHR ''N'' then (TAN, i, []) else rollback line i 3)
        else rollback line i 2)
     else rollback line i 1)"

subsection \<open>The argument parser\<close>

text \<open>
  \<open>std::isspace\<close> in the C locale: the space and the characters 9 to 13, and no
  character above 127.
\<close>

definition isspace :: "char \<Rightarrow> bool" where
  "isspace c = (c \<in> set [CHR '' '', CHR 0x09, CHR 0x0A, CHR 0x0B, CHR 0x0C, CHR 0x0D])"

function skip_ws :: "string \<Rightarrow> nat \<Rightarrow> nat" where
  "skip_ws line i = (if i < length line \<and> isspace (line ! i) then skip_ws line (i + 1) else i)"
  by pat_completeness auto
termination
  by (relation "measure (\<lambda>(line, i). length line - i)") auto

declare skip_ws.simps [simp del]

text \<open>\<open>line[i] - '0'\<close> for a digit, converted to double.\<close>

definition digit_value :: "char \<Rightarrow> double" where
  "digit_value c =
     (if c = CHR ''0'' then 0
      else if c = CHR ''1'' then 0x3FF0000000000000
      else if c = CHR ''2'' then 0x4000000000000000
      else if c = CHR ''3'' then 0x4008000000000000
      else if c = CHR ''4'' then 0x4010000000000000
      else if c = CHR ''5'' then 0x4014000000000000
      else if c = CHR ''6'' then 0x4018000000000000
      else if c = CHR ''7'' then 0x401C000000000000
      else if c = CHR ''8'' then 0x4020000000000000
      else 0x4022000000000000)"

text \<open>
  The loop of \<open>parse_arg\<close>, with its local variables as arguments. It returns \<open>res\<close>
  and the cursor.
\<close>

function parse_arg_loop ::
  "fpu \<Rightarrow> string \<Rightarrow> double \<Rightarrow> nat \<Rightarrow> bool \<Rightarrow> bool \<Rightarrow> double \<Rightarrow> nat \<Rightarrow> double \<times> nat" where
  "parse_arg_loop m line res count good integer fraction i =
     (if good \<and> i < length line \<and> count < max_decimal_digits then
        (if is_digit (line ! i) then
           (if integer then
              parse_arg_loop m line (fadd m (fmul m res dbl_10) (digit_value (line ! i)))
                (count + 1) good integer fraction (i + 1)
            else
              parse_arg_loop m line
                (fadd m res (fmul m (digit_value (line ! i)) (fdiv m fraction dbl_10)))
                (count + 1) good integer (fdiv m fraction dbl_10) (i + 1))
         else if line ! i = CHR ''.'' then
           parse_arg_loop m line res count good False fraction (i + 1)
         else parse_arg_loop m line res count False integer fraction i)
      else (res, i))"
  by pat_completeness auto
termination
  by (relation "measure (\<lambda>(m, line, res, count, good, integer, fraction, i).
        (length line - i) + (if good then 1 else 0))") auto

declare parse_arg_loop.simps [simp del]

definition parse_arg :: "fpu \<Rightarrow> string \<Rightarrow> nat \<Rightarrow> double \<times> nat \<times> diag list" where
  "parse_arg m line i =
     (case parse_arg_loop m line dbl_0 0 True True dbl_1 i of
        (res, j) \<Rightarrow> (res, j, if j < length line then [Suffix_left (drop j line)] else []))"

subsection \<open>The evaluator\<close>

definition ctn :: "fpu \<Rightarrow> double \<Rightarrow> double" where
  "ctn m current = fdiv m dbl_1 (c_tan m current)"

definition actn :: "fpu \<Rightarrow> double \<Rightarrow> double" where
  "actn m current =
     (let angle = c_atan m (fdiv m dbl_1 current)
      in if flt angle dbl_0 then fadd m angle M_PI else angle)"

definition to_radians :: "fpu \<Rightarrow> double \<Rightarrow> bool \<Rightarrow> double" where
  "to_radians m angle rad_on = (if rad_on then angle else fmul m (fdiv m angle dbl_180) M_PI)"

definition to_degrees :: "fpu \<Rightarrow> double \<Rightarrow> bool \<Rightarrow> double" where
  "to_degrees m angle rad_on = (if rad_on then angle else fdiv m (fmul m angle dbl_180) M_PI)"

text \<open>\<open>nullary\<close> returns the accumulator and the angle mode.\<close>

fun nullary :: "double \<Rightarrow> Op \<Rightarrow> bool \<Rightarrow> double \<times> bool" where
  "nullary current ERR rad_on = (current, rad_on)"
| "nullary current RAD rad_on = (current, True)"
| "nullary current DEG rad_on = (current, False)"
| "nullary current _ rad_on = (current, rad_on)"

fun unary :: "fpu \<Rightarrow> double \<Rightarrow> Op \<Rightarrow> bool \<Rightarrow> double \<times> diag list" where
  "unary m current NEG rad_on = (fneg current, [])"
| "unary m current SQRT rad_on =
     (if fgt current dbl_0 then (c_sqrt m current, []) else (current, [Bad_SQRT current]))"
| "unary m current SIN rad_on = (c_sin m (to_radians m current rad_on), [])"
| "unary m current COS rad_on = (c_cos m (to_radians m current rad_on), [])"
| "unary m current TAN rad_on =
     (if fgt (fabs (c_cos m (to_radians m current rad_on))) eps
      then (c_tan m (to_radians m current rad_on), [])
      else (inf_const, []))"
| "unary m current CTN rad_on =
     (if fgt (fabs (c_sin m (to_radians m current rad_on))) eps
      then (ctn m (to_radians m current rad_on), [])
      else (INFINITY, []))"
| "unary m current ASIN rad_on =
     (if fle (fabs current) dbl_1 then (to_degrees m (c_asin m current) rad_on, [])
      else (INFINITY, [Bad_ASIN current]))"
| "unary m current ACOS rad_on =
     (if fle (fabs current) dbl_1 then (to_degrees m (c_acos m current) rad_on, [])
      else (current, [Bad_ACOS current]))"
| "unary m current ATAN rad_on =
     (if flt (fabs current) (fdiv m M_PI dbl_2) then (to_degrees m (c_atan m current) rad_on, [])
      else (current, [Bad_ATAN current]))"
| "unary m current ACTN rad_on =
     (if flt dbl_0 (fabs current) \<and> flt (fabs current) M_PI
      then (to_degrees m (actn m current) rad_on, [])
      else (current, [Bad_ACTN current]))"
| "unary m current _ rad_on = (current, [])"

fun binary :: "fpu \<Rightarrow> Op \<Rightarrow> double \<Rightarrow> double \<Rightarrow> double \<times> diag list" where
  "binary m SET left right = (right, [])"
| "binary m ADD left right = (fadd m left right, [])"
| "binary m SUB left right = (fsub m left right, [])"
| "binary m MUL left right = (fmul m left right, [])"
| "binary m DIV left right =
     (if fne right dbl_0 then (fdiv m left right, []) else (left, [Bad_division right]))"
| "binary m REM left right =
     (if fne right dbl_0 then (c_remainder m left right, []) else (left, [Bad_remainder right]))"
| "binary m POW left right = (c_pow m left right, [])"
| "binary m _ left right = (left, [])"

text \<open>
  \<open>process_line\<close> returns the new accumulator, the angle mode and the diagnostics of
  the line.
\<close>

definition process_line :: "fpu \<Rightarrow> double \<Rightarrow> bool \<Rightarrow> string \<Rightarrow> double \<times> bool \<times> diag list" where
  "process_line m current rad_on line =
     (case parse_op line 0 of (op, i, d0) \<Rightarrow>
        if arity op = 0 then
          (case nullary current op rad_on of (r, rad_on') \<Rightarrow> (r, rad_on', d0))
        else if arity op = 1 then
          (case unary m current op rad_on of (r, d1) \<Rightarrow> (r, rad_on, d0 @ d1))
        else if arity op = 2 then
          (case parse_arg m line (skip_ws line i) of (arg, j, d1) \<Rightarrow>
             (case binary m op current arg of (r, d2) \<Rightarrow> (r, rad_on, d0 @ d1 @ d2)))
        else (current, rad_on, d0))"

text \<open>
  The loop of \<open>main\<close> over the lines read, from the state \<open>(current, rad_on)\<close>; \<open>main\<close>
  starts it at \<open>(0, false)\<close>.
\<close>

fun run_lines :: "fpu \<Rightarrow> double \<times> bool \<Rightarrow> string list \<Rightarrow> double \<times> bool" where
  "run_lines m st [] = st"
| "run_lines m (current, rad_on) (line # rest) =
     (case process_line m current rad_on line of
        (r, rad_on', d) \<Rightarrow> run_lines m (r, rad_on') rest)"

subsection \<open>The specification's reading of the recogniser and of tangent\<close>

text \<open>
  The recogniser as the specification describes it: a leading digit gives \<open>SET\<close> with
  the cursor on the digit; otherwise the line is looked up in the table of symbols and
  mnemonics; otherwise the operation is unknown.
\<close>

definition token_table :: "(string \<times> Op) list" where
  "token_table =
     [(''+'', ADD), (''-'', SUB), (''*'', MUL), (''/'', DIV), (''%'', REM), (''_'', NEG),
      (''^'', POW), (''RAD'', RAD), (''DEG'', DEG), (''SQRT'', SQRT), (''SIN'', SIN),
      (''COS'', COS), (''TAN'', TAN), (''CTN'', CTN), (''ASIN'', ASIN), (''ACOS'', ACOS),
      (''ATAN'', ATAN), (''ACTN'', ACTN)]"

definition recognise_spec :: "string \<Rightarrow> Op \<times> nat \<times> diag list" where
  "recognise_spec line =
     (if line \<noteq> [] \<and> is_digit (hd line) then (SET, 0, [])
      else case find (\<lambda>(tok, op). prefix tok line) token_table of
             Some (tok, op) \<Rightarrow> (op, length tok, [])
           | None \<Rightarrow> (ERR, 0, [Unknown_operation line]))"

text \<open>
  Tangent as the specification words it: the sentinel when \<open>|cos| \<le> eps\<close>, the tangent
  otherwise.
\<close>

definition tan_claimed :: "fpu \<Rightarrow> double \<Rightarrow> bool \<Rightarrow> double" where
  "tan_claimed m current rad_on =
     (if fle (fabs (c_cos m (to_radians m current rad_on))) eps then inf_const
      else c_tan m (to_radians m current rad_on))"

text \<open>The leading token of a line is a digit, a symbol or a mnemonic.\<close>

definition leading_token_known :: "string \<Rightarrow> bool" where
  "leading_token_known line =
     ((line \<noteq> [] \<and> is_digit (hd line)) \<or> (\<exists>(tok, op) \<in> set token_table. prefix tok line))"

text \<open>The angle mode that the last \<open>RAD\<close> or \<open>DEG\<close> of a list of lines sets.\<close>

definition last_toggle :: "bool \<Rightarrow> string list \<Rightarrow> bool" where
  "last_toggle rad_on lines =
     foldl (\<lambda>b line. if prefix ''RAD'' line then True
                      else if prefix ''DEG'' line then False else b) rad_on lines"

subsection \<open>The literal as a list of characters\<close>

text \<open>
  The loop of \<open>parse_arg\<close> as a recursion over the characters from the cursor on. It
  returns \<open>res\<close> and the number of characters consumed. It is proved equal to the loop
  below and carries the inductions.
\<close>

fun scan_literal :: "fpu \<Rightarrow> string \<Rightarrow> double \<Rightarrow> nat \<Rightarrow> bool \<Rightarrow> double \<Rightarrow> double \<times> nat" where
  "scan_literal m [] res count integer fraction = (res, 0)"
| "scan_literal m (c # cs) res count integer fraction =
     (if count < max_decimal_digits then
        (if is_digit c then
           (if integer then
              (case scan_literal m cs (fadd m (fmul m res dbl_10) (digit_value c))
                      (count + 1) integer fraction of
                 (v, n) \<Rightarrow> (v, n + 1))
            else
              (case scan_literal m cs
                      (fadd m res (fmul m (digit_value c) (fdiv m fraction dbl_10)))
                      (count + 1) integer (fdiv m fraction dbl_10) of
                 (v, n) \<Rightarrow> (v, n + 1)))
         else if c = CHR ''.'' then
           (case scan_literal m cs res count False fraction of (v, n) \<Rightarrow> (v, n + 1))
         else (res, 0))
      else (res, 0))"

declare scan_literal.simps(2) [simp del]

text \<open>The number of digits among the characters from cursor \<open>i\<close> up to cursor \<open>j\<close>.\<close>

definition digits_consumed :: "string \<Rightarrow> nat \<Rightarrow> nat \<Rightarrow> nat" where
  "digits_consumed line i j = length (filter is_digit (take (j - i) (drop i line)))"

section \<open>Facts about doubles\<close>

lemma fle_not_fgt: "fle a b \<Longrightarrow> \<not> fgt a b"
  by (simp add: fle_def fgt_def flt_def)

lemma fge_not_flt: "fge a b \<Longrightarrow> \<not> flt a b"
  by (simp add: fge_def fle_def flt_def)

lemma not_fgt_iff: "\<not> fgt a b \<longleftrightarrow> fle a b \<or> is_nan a \<or> is_nan b"
  by (auto simp add: fle_def fgt_def flt_def)

lemma is_nan_qNaN: "is_nan qNaN"
  by (simp add: is_nan_def qNaN_def magnitude_def)

lemma is_nan_fabs: "is_nan (fabs x) = is_nan x"
  by (simp add: is_nan_def fabs_def magnitude_def)

lemma not_is_nan_eps: "\<not> is_nan eps"
  by (simp add: is_nan_def eps_def magnitude_def)

lemma INFINITY_bits:
  "magnitude INFINITY = INFINITY" "\<not> bit INFINITY 63" "\<not> is_nan INFINITY"
  by (simp_all add: INFINITY_def magnitude_def is_nan_def)

text \<open>Rules that evaluate the IEEE operations on numerals.\<close>

lemma bit_length_numeral:
  "bit_length 0 = 0"
  "bit_length (Suc 0) = 1"
  "bit_length (numeral k) = bit_length (numeral k div 2) + 1"
  by (simp_all add: bit_length.simps [of 0] bit_length.simps [of "Suc 0"]
      bit_length.simps [of "numeral k"])

lemmas ieee_eval =
  ieee_fpu_def ieee_add_def ieee_sub_def ieee_mul_def ieee_div_def ieee_remainder_def
  round_pack_def is_nan_def
  is_inf_def is_zero_def magnitude_def mantissa_def exponent_def with_sign_def fneg_def
  INFINITY_def qNaN_def bit_length_numeral drop_bit_eq_div

lemma ieee_examples:
  "ieee_add dbl_1 dbl_2 = 0x4008000000000000"
  "ieee_div dbl_1 dbl_10 = 0x3FB999999999999A"
  "ieee_add 0x3FB999999999999A 0x3FC999999999999A = 0x3FD3333333333334"
  "ieee_mul 0x4008000000000000 0x3FB999999999999A = 0x3FD3333333333334"
  "ieee_sub dbl_1 dbl_1 = 0"
  "ieee_div dbl_1 dbl_0 = INFINITY"
  "is_nan (ieee_div dbl_0 dbl_0)"
  "is_nan (ieee_sub INFINITY INFINITY)"
  "ieee_remainder dbl_10 0x4008000000000000 = dbl_1"
  by (simp_all add: dbl_0_def dbl_1_def dbl_2_def dbl_10_def ieee_eval)

text \<open>\<open>valof\<close> is the sign times \<open>mantissa * 2 ^ exponent\<close>.\<close>

lemma valof_mantissa_exponent:
  "valof x =
     (if bit x 63 then - 1 else 1) *
     (if exponent x < 0 then of_nat (mantissa x) / 2 ^ nat (- exponent x)
      else of_nat (mantissa x * 2 ^ nat (exponent x)))"
proof -
  define k where "k = unat (drop_bit 52 (magnitude x))"
  define f where "f = unat (x AND 0xFFFFFFFFFFFFF)"
  have z: "(drop_bit 52 (magnitude x) = 0) = (k = 0)"
    by (simp add: k_def unat_eq_0)
  have m: "mantissa x = (if k = 0 then f else 2 ^ 52 + f)"
    unfolding mantissa_def z f_def [symmetric] by (rule refl)
  have e: "exponent x = (if k = 0 then - 1074 else int k - 1075)"
    unfolding exponent_def z k_def [symmetric] by (rule refl)
  have v: "valof x =
      (if bit x 63 then - 1 else 1) *
      (if k = 0 then of_nat f / 2 ^ 1074
       else if k < 1075 then of_nat (2 ^ 52 + f) / 2 ^ (1075 - k)
       else of_nat ((2 ^ 52 + f) * 2 ^ (k - 1075)))"
    unfolding valof_def Let_def k_def [symmetric] f_def [symmetric] by simp
  have n: "nat (1075 - int k) = 1075 - k" "nat (int k - 1075) = k - 1075"
    by simp_all
  show ?thesis
    unfolding v m e by (simp add: n)
qed

text \<open>\<open>INFINITY\<close> is above every double that is not a NaN.\<close>

lemma not_nan_le_INFINITY:
  assumes "\<not> is_nan x"
  shows "fle x INFINITY"
proof -
  from assms have "magnitude x \<le> INFINITY"
    by (simp add: is_nan_def INFINITY_def not_less)
  then have "uint (magnitude x) \<le> uint INFINITY"
    by (simp add: word_le_def)
  moreover have "- uint (magnitude x) \<le> uint INFINITY"
    using uint_ge_0 [of "magnitude x"] uint_ge_0 [of INFINITY] by linarith
  ultimately have "fkey x \<le> fkey INFINITY"
    by (simp add: fkey_def INFINITY_bits)
  with assms show ?thesis
    by (simp add: fle_def INFINITY_bits)
qed

text \<open>The constants denote the numbers written in the source.\<close>

lemma valof_inf_const: "valof inf_const = 16331239353195370"
  by (simp add: valof_def inf_const_def magnitude_def Let_def drop_bit_eq_div)

lemma valof_eps: "\<bar>valof eps - 1 / 10 ^ 10\<bar> \<le> 1 / 2 ^ 87"
  by (simp add: valof_def eps_def magnitude_def Let_def drop_bit_eq_div)

lemma valof_small:
  "valof dbl_0 = 0" "valof dbl_1 = 1" "valof dbl_2 = 2" "valof dbl_10 = 10"
  "valof dbl_180 = 180"
  by (simp_all add: valof_def dbl_0_def dbl_1_def dbl_2_def dbl_10_def dbl_180_def
      magnitude_def Let_def drop_bit_eq_div)

lemma valof_digit_value:
  "valof (digit_value CHR ''0'') = 0" "valof (digit_value CHR ''1'') = 1"
  "valof (digit_value CHR ''2'') = 2" "valof (digit_value CHR ''3'') = 3"
  "valof (digit_value CHR ''4'') = 4" "valof (digit_value CHR ''5'') = 5"
  "valof (digit_value CHR ''6'') = 6" "valof (digit_value CHR ''7'') = 7"
  "valof (digit_value CHR ''8'') = 8" "valof (digit_value CHR ''9'') = 9"
  by (simp_all add: digit_value_def valof_def magnitude_def Let_def drop_bit_eq_div)

lemma inf_const_finite: "flt inf_const INFINITY"
  by (simp add: flt_def is_nan_def fkey_def INFINITY_def inf_const_def magnitude_def)

lemma inf_const_neq_qNaN: "inf_const \<noteq> qNaN"
  by (simp add: inf_const_def qNaN_def)

section \<open>The evaluator's guards\<close>

text \<open>
  C3, as stated: tangent returns the sentinel when \<open>|cos| \<le> eps\<close> and the tangent
  otherwise. This fails when the accumulator is infinite, as arcsine and cotangent leave
  it: the cosine of an infinity is a NaN, \<open>|cos| \<le> eps\<close> is false, and \<open>unary\<close> returns
  the sentinel, where the tangent is a NaN.
\<close>

theorem tan_infinity_counterexample:
  "fst (unary ieee_fpu INFINITY TAN True) \<noteq> tan_claimed ieee_fpu INFINITY True"
proof -
  have c: "c_cos ieee_fpu INFINITY = qNaN" "c_tan ieee_fpu INFINITY = qNaN"
    by (simp_all add: ieee_fpu_def is_zero_def INFINITY_def magnitude_def)
  show ?thesis
    by (simp add: tan_claimed_def to_radians_def c fgt_def flt_def fle_def
        is_nan_fabs is_nan_qNaN inf_const_neq_qNaN)
qed

text \<open>
  C3, amended: tangent returns \<open>tan\<close> of the angle in radians when \<open>|cos| > eps\<close> and
  the sentinel 16331239353195370, a finite double, in every other case; cotangent
  returns \<open>1 / tan\<close> when \<open>|sin| > eps\<close> and IEEE infinity in every other case. The other
  case is \<open>|cos| \<le> eps\<close> (for cotangent \<open>|sin| \<le> eps\<close>) or a NaN.
\<close>

theorem tan_ctn_guards:
  "unary m current TAN rad_on =
     (if fgt (fabs (c_cos m (to_radians m current rad_on))) eps
      then c_tan m (to_radians m current rad_on) else inf_const, []) \<and>
   unary m current CTN rad_on =
     (if fgt (fabs (c_sin m (to_radians m current rad_on))) eps
      then fdiv m dbl_1 (c_tan m (to_radians m current rad_on)) else INFINITY, []) \<and>
   (\<not> fgt (fabs (c_cos m (to_radians m current rad_on))) eps \<longleftrightarrow>
      fle (fabs (c_cos m (to_radians m current rad_on))) eps \<or>
      is_nan (c_cos m (to_radians m current rad_on))) \<and>
   (\<not> fgt (fabs (c_sin m (to_radians m current rad_on))) eps \<longleftrightarrow>
      fle (fabs (c_sin m (to_radians m current rad_on))) eps \<or>
      is_nan (c_sin m (to_radians m current rad_on))) \<and>
   valof inf_const = 16331239353195370 \<and> flt inf_const INFINITY \<and>
   (\<forall>x. \<not> is_nan x \<longrightarrow> fle x INFINITY)"
proof -
  have t: "unary m current TAN rad_on =
     (if fgt (fabs (c_cos m (to_radians m current rad_on))) eps
      then c_tan m (to_radians m current rad_on) else inf_const, [])"
    by simp
  have c: "unary m current CTN rad_on =
     (if fgt (fabs (c_sin m (to_radians m current rad_on))) eps
      then fdiv m dbl_1 (c_tan m (to_radians m current rad_on)) else INFINITY, [])"
    by (simp add: ctn_def)
  have n: "(\<not> fgt (fabs y) eps \<longleftrightarrow> fle (fabs y) eps \<or> is_nan y)" for y
    by (simp add: not_fgt_iff is_nan_fabs not_is_nan_eps)
  have i: "\<forall>x. \<not> is_nan x \<longrightarrow> fle x INFINITY"
    by (simp add: not_nan_le_INFINITY)
  show ?thesis
    by (intro conjI) (rule t c n valof_inf_const inf_const_finite i)+
qed

theorem tan_ctn_guards_witness:
  "is_nan (c_cos ieee_fpu (to_radians ieee_fpu INFINITY True)) \<and>
   unary ieee_fpu INFINITY TAN True = (inf_const, []) \<and>
   fle (fabs (c_sin ieee_fpu (to_radians ieee_fpu dbl_0 True))) eps \<and>
   unary ieee_fpu dbl_0 CTN True = (INFINITY, []) \<and>
   fgt (fabs (c_cos ieee_fpu (to_radians ieee_fpu dbl_0 True))) eps \<and>
   unary ieee_fpu dbl_0 TAN True = (dbl_0, []) \<and>
   \<not> is_nan inf_const \<and> fle inf_const INFINITY"
proof -
  have v: "c_cos ieee_fpu INFINITY = qNaN" "c_sin ieee_fpu dbl_0 = dbl_0"
    "c_cos ieee_fpu dbl_0 = dbl_1" "c_tan ieee_fpu dbl_0 = dbl_0"
    by (simp_all add: ieee_fpu_def is_zero_def INFINITY_def dbl_0_def magnitude_def)
  have r: "to_radians ieee_fpu x True = x" for x
    by (simp add: to_radians_def)
  have h1: "is_nan (c_cos ieee_fpu (to_radians ieee_fpu INFINITY True))"
    unfolding r v by (rule is_nan_qNaN)
  have h2: "fle (fabs (c_sin ieee_fpu (to_radians ieee_fpu dbl_0 True))) eps"
    unfolding r v
    by (simp add: fle_def fabs_def is_nan_def fkey_def dbl_0_def eps_def magnitude_def)
  have h3: "fgt (fabs (c_cos ieee_fpu (to_radians ieee_fpu dbl_0 True))) eps"
    unfolding r v
    by (simp add: fgt_def flt_def fabs_def is_nan_def fkey_def dbl_1_def eps_def
        magnitude_def)
  have f: "\<not> is_nan inf_const"
    by (simp add: is_nan_def inf_const_def magnitude_def)
  note t1 = tan_ctn_guards [of ieee_fpu INFINITY True]
  note t2 = tan_ctn_guards [of ieee_fpu dbl_0 True]
  from h1 have n1: "\<not> fgt (fabs (c_cos ieee_fpu (to_radians ieee_fpu INFINITY True))) eps"
    by (simp add: fgt_def flt_def is_nan_fabs)
  from h2 have n2: "\<not> fgt (fabs (c_sin ieee_fpu (to_radians ieee_fpu dbl_0 True))) eps"
    by (rule fle_not_fgt)
  from t1 have "unary ieee_fpu INFINITY TAN True =
     (if fgt (fabs (c_cos ieee_fpu (to_radians ieee_fpu INFINITY True))) eps
      then c_tan ieee_fpu (to_radians ieee_fpu INFINITY True) else inf_const, [])"
    by (rule conjunct1)
  with n1 have a: "unary ieee_fpu INFINITY TAN True = (inf_const, [])"
    by (simp only: if_False)
  from t2 have "unary ieee_fpu dbl_0 CTN True =
     (if fgt (fabs (c_sin ieee_fpu (to_radians ieee_fpu dbl_0 True))) eps
      then fdiv ieee_fpu dbl_1 (c_tan ieee_fpu (to_radians ieee_fpu dbl_0 True))
      else INFINITY, [])"
    by (rule conjunct1 [OF conjunct2])
  with n2 have b: "unary ieee_fpu dbl_0 CTN True = (INFINITY, [])"
    by (simp only: if_False)
  from t2 have "unary ieee_fpu dbl_0 TAN True =
     (if fgt (fabs (c_cos ieee_fpu (to_radians ieee_fpu dbl_0 True))) eps
      then c_tan ieee_fpu (to_radians ieee_fpu dbl_0 True) else inf_const, [])"
    by (rule conjunct1)
  with h3 have c: "unary ieee_fpu dbl_0 TAN True = (dbl_0, [])"
    by (simp only: if_True r v)
  from t1 f have d: "fle inf_const INFINITY"
    by blast
  from h1 h2 h3 a b c d f show ?thesis
    by blast
qed

text \<open>
  C4: square root of an accumulator \<open>\<le> 0\<close> (zero included), and division and remainder
  by a right operand equal to zero, write a diagnostic and return the accumulator
  unchanged; with a right operand that is not zero, remainder is \<open>std::remainder\<close>. The
  IEEE remainder of 7 by 4 is -1, where the truncating modulo gives 3.
\<close>

theorem sqrt_div_rem_guards:
  "(fle current dbl_0 \<longrightarrow> unary m current SQRT rad_on = (current, [Bad_SQRT current])) \<and>
   (feq right dbl_0 \<longrightarrow> binary m DIV current right = (current, [Bad_division right])) \<and>
   (feq right dbl_0 \<longrightarrow> binary m REM current right = (current, [Bad_remainder right])) \<and>
   (fne right dbl_0 \<longrightarrow> binary m REM current right = (c_remainder m current right, []))"
  by (simp add: fle_not_fgt fne_def)

theorem sqrt_div_rem_guards_witness:
  "fle 0xC010000000000000 dbl_0 \<and>
   unary ieee_fpu 0xC010000000000000 SQRT False =
     (0xC010000000000000, [Bad_SQRT 0xC010000000000000]) \<and>
   fle dbl_0 dbl_0 \<and> unary ieee_fpu dbl_0 SQRT False = (dbl_0, [Bad_SQRT dbl_0]) \<and>
   feq dbl_0 dbl_0 \<and>
   binary ieee_fpu DIV dbl_10 dbl_0 = (dbl_10, [Bad_division dbl_0]) \<and>
   binary ieee_fpu REM dbl_10 dbl_0 = (dbl_10, [Bad_remainder dbl_0]) \<and>
   fne 0x4010000000000000 dbl_0 \<and>
   binary ieee_fpu REM 0x401C000000000000 0x4010000000000000 = (0xBFF0000000000000, [])"
proof -
  have h1: "fle 0xC010000000000000 dbl_0" "fle dbl_0 dbl_0"
    by (simp_all add: fle_def is_nan_def fkey_def dbl_0_def magnitude_def)
  have h2: "feq dbl_0 dbl_0"
    by (simp add: feq_def is_nan_def dbl_0_def magnitude_def)
  have h3: "fne 0x4010000000000000 dbl_0"
    by (simp add: fne_def feq_def is_nan_def fkey_def dbl_0_def magnitude_def)
  have r: "c_remainder ieee_fpu 0x401C000000000000 0x4010000000000000 = 0xBFF0000000000000"
    by (simp add: ieee_eval)
  show ?thesis
    using h1 h2 h3 sqrt_div_rem_guards [of "0xC010000000000000" ieee_fpu False dbl_0]
      sqrt_div_rem_guards [of dbl_0 ieee_fpu False dbl_0]
      sqrt_div_rem_guards [of dbl_10 ieee_fpu False dbl_0]
      sqrt_div_rem_guards
        [of "0x401C000000000000" ieee_fpu False "0x4010000000000000", unfolded r]
    by blast
qed

text \<open>
  C5: arcsine and arccosine are computed when \<open>|current| \<le> 1\<close>, and the result is
  converted to the active angle unit; otherwise both write a diagnostic, arcsine
  returns IEEE infinity and arccosine returns the accumulator unchanged.
\<close>

theorem asin_acos_guards:
  "(fle (fabs current) dbl_1 \<longrightarrow>
      unary m current ASIN rad_on = (to_degrees m (c_asin m current) rad_on, []) \<and>
      unary m current ACOS rad_on = (to_degrees m (c_acos m current) rad_on, [])) \<and>
   (\<not> fle (fabs current) dbl_1 \<longrightarrow>
      unary m current ASIN rad_on = (INFINITY, [Bad_ASIN current]) \<and>
      unary m current ACOS rad_on = (current, [Bad_ACOS current])) \<and>
   to_degrees m x True = x \<and>
   to_degrees m x False = fdiv m (fmul m x dbl_180) M_PI"
  by (simp add: to_degrees_def)

theorem asin_acos_guards_witness:
  "fle (fabs dbl_0) dbl_1 \<and> unary ieee_fpu dbl_0 ASIN False = (dbl_0, []) \<and>
   fle (fabs dbl_1) dbl_1 \<and> unary ieee_fpu dbl_1 ACOS False = (dbl_0, []) \<and>
   \<not> fle (fabs dbl_2) dbl_1 \<and>
   unary ieee_fpu dbl_2 ASIN True = (INFINITY, [Bad_ASIN dbl_2]) \<and>
   unary ieee_fpu dbl_2 ACOS True = (dbl_2, [Bad_ACOS dbl_2])"
proof -
  have h0: "fle (fabs dbl_0) dbl_1"
    by (simp add: fle_def fabs_def is_nan_def fkey_def dbl_0_def dbl_1_def magnitude_def)
  have h1: "fle (fabs dbl_1) dbl_1"
    by (simp add: fle_def fabs_def is_nan_def fkey_def dbl_1_def magnitude_def)
  have h2: "\<not> fle (fabs dbl_2) dbl_1"
    by (simp add: fle_def fabs_def is_nan_def fkey_def dbl_1_def dbl_2_def magnitude_def)
  have v: "to_degrees ieee_fpu (c_asin ieee_fpu dbl_0) False = dbl_0"
    "to_degrees ieee_fpu (c_acos ieee_fpu dbl_1) False = dbl_0"
    by (simp_all add: to_degrees_def dbl_0_def dbl_1_def dbl_180_def M_PI_def ieee_eval)
  from h0 asin_acos_guards [of dbl_0 ieee_fpu False dbl_0]
  have a: "unary ieee_fpu dbl_0 ASIN False = (dbl_0, [])"
    unfolding v by blast
  from h1 asin_acos_guards [of dbl_1 ieee_fpu False dbl_0]
  have b: "unary ieee_fpu dbl_1 ACOS False = (dbl_0, [])"
    unfolding v by blast
  from h2 asin_acos_guards [of dbl_2 ieee_fpu True dbl_0]
  have c: "unary ieee_fpu dbl_2 ASIN True = (INFINITY, [Bad_ASIN dbl_2])"
    "unary ieee_fpu dbl_2 ACOS True = (dbl_2, [Bad_ACOS dbl_2])"
    by blast+
  from h0 h1 h2 a b c show ?thesis
    by blast
qed

text \<open>
  C6: arctangent is computed, and converted to the active angle unit, only when
  \<open>|current| < M_PI / 2\<close>; when \<open>|current| \<ge> M_PI / 2\<close> a diagnostic is written and the
  accumulator is returned unchanged.
\<close>

theorem atan_guard:
  "(flt (fabs current) (fdiv m M_PI dbl_2) \<longrightarrow>
      unary m current ATAN rad_on = (to_degrees m (c_atan m current) rad_on, [])) \<and>
   (fge (fabs current) (fdiv m M_PI dbl_2) \<longrightarrow>
      unary m current ATAN rad_on = (current, [Bad_ATAN current])) \<and>
   (snd (unary m current ATAN rad_on) = [] \<longrightarrow> flt (fabs current) (fdiv m M_PI dbl_2)) \<and>
   to_degrees m x True = x \<and>
   to_degrees m x False = fdiv m (fmul m x dbl_180) M_PI"
  by (simp add: to_degrees_def fge_not_flt)

theorem atan_guard_witness:
  "flt (fabs dbl_0) (fdiv ieee_fpu M_PI dbl_2) \<and>
   unary ieee_fpu dbl_0 ATAN False = (dbl_0, []) \<and>
   fge (fabs dbl_2) (fdiv ieee_fpu M_PI dbl_2) \<and>
   unary ieee_fpu dbl_2 ATAN False = (dbl_2, [Bad_ATAN dbl_2])"
proof -
  have half_pi: "fdiv ieee_fpu M_PI dbl_2 = 0x3FF921FB54442D18"
    by (simp add: M_PI_def dbl_2_def ieee_eval)
  have h1: "flt (fabs dbl_0) (fdiv ieee_fpu M_PI dbl_2)"
    unfolding half_pi by (simp add: flt_def fabs_def is_nan_def fkey_def dbl_0_def magnitude_def)
  have h2: "fge (fabs dbl_2) (fdiv ieee_fpu M_PI dbl_2)"
    unfolding half_pi
    by (simp add: fge_def fle_def fabs_def is_nan_def fkey_def dbl_2_def magnitude_def)
  have v: "to_degrees ieee_fpu (c_atan ieee_fpu dbl_0) False = dbl_0"
    by (simp add: to_degrees_def dbl_0_def dbl_180_def M_PI_def ieee_eval)
  from h1 atan_guard [of dbl_0 ieee_fpu False dbl_0]
  have a: "unary ieee_fpu dbl_0 ATAN False = (dbl_0, [])"
    unfolding v by blast
  from h2 atan_guard [of dbl_2 ieee_fpu False dbl_0]
  have b: "unary ieee_fpu dbl_2 ATAN False = (dbl_2, [Bad_ATAN dbl_2])"
    by blast
  from h1 h2 a b show ?thesis
    by blast
qed

section \<open>The recogniser is the table lookup\<close>

lemmas recognise_defs =
  parse_op_def recognise_spec_def token_table_def char_at_def rollback_def is_digit_def Let_def

lemma line_shapes:
  obtains "line = []" | a where "line = [a]" | a b where "line = [a, b]"
  | a b c where "line = [a, b, c]" | a b c d rest where "line = a # b # c # d # rest"
proof (cases line)
  case Nil
  then show ?thesis using that by simp
next
  case l1: (Cons a r1)
  show ?thesis
  proof (cases r1)
    case Nil
    with l1 show ?thesis using that by simp
  next
    case l2: (Cons b r2)
    show ?thesis
    proof (cases r2)
      case Nil
      with l1 l2 show ?thesis using that by simp
    next
      case l3: (Cons c r3)
      show ?thesis
      proof (cases r3)
        case Nil
        with l1 l2 l3 show ?thesis using that by simp
      next
        case (Cons d r4)
        with l1 l2 l3 show ?thesis using that by simp
      qed
    qed
  qed
qed

lemma parse_op_spec_0: "parse_op [] 0 = recognise_spec []"
  by (simp add: recognise_defs)

lemma parse_op_spec_1: "parse_op [a] 0 = recognise_spec [a]"
  by (simp add: recognise_defs)

lemma parse_op_spec_2: "parse_op [a, b] 0 = recognise_spec [a, b]"
  by (simp add: recognise_defs)

lemma parse_op_spec_3: "parse_op [a, b, c] 0 = recognise_spec [a, b, c]"
  by (simp add: recognise_defs)

lemma parse_op_spec_4:
  "parse_op (a # b # c # d # rest) 0 = recognise_spec (a # b # c # d # rest)"
  by (simp add: recognise_defs)

text \<open>
  From the start of a line, the nested switches of \<open>parse_op\<close> compute the table lookup
  of the specification, cursor and diagnostic included.
\<close>

lemma parse_op_spec: "parse_op line 0 = recognise_spec line"
  by (cases line rule: line_shapes)
    (simp_all only: parse_op_spec_0 parse_op_spec_1 parse_op_spec_2 parse_op_spec_3
      parse_op_spec_4)



lemma parse_op_tokens:
  "parse_op (CHR ''+'' # rest) 0 = (ADD, 1, [])"
  "parse_op (CHR ''-'' # rest) 0 = (SUB, 1, [])"
  "parse_op (CHR ''*'' # rest) 0 = (MUL, 1, [])"
  "parse_op (CHR ''/'' # rest) 0 = (DIV, 1, [])"
  "parse_op (CHR ''%'' # rest) 0 = (REM, 1, [])"
  "parse_op (CHR ''_'' # rest) 0 = (NEG, 1, [])"
  "parse_op (CHR ''^'' # rest) 0 = (POW, 1, [])"
  "parse_op (CHR ''R'' # CHR ''A'' # CHR ''D'' # rest) 0 = (RAD, 3, [])"
  "parse_op (CHR ''D'' # CHR ''E'' # CHR ''G'' # rest) 0 = (DEG, 3, [])"
  "parse_op (CHR ''S'' # CHR ''Q'' # CHR ''R'' # CHR ''T'' # rest) 0 = (SQRT, 4, [])"
  "parse_op (CHR ''S'' # CHR ''I'' # CHR ''N'' # rest) 0 = (SIN, 3, [])"
  "parse_op (CHR ''C'' # CHR ''O'' # CHR ''S'' # rest) 0 = (COS, 3, [])"
  "parse_op (CHR ''T'' # CHR ''A'' # CHR ''N'' # rest) 0 = (TAN, 3, [])"
  "parse_op (CHR ''C'' # CHR ''T'' # CHR ''N'' # rest) 0 = (CTN, 3, [])"
  "parse_op (CHR ''A'' # CHR ''S'' # CHR ''I'' # CHR ''N'' # rest) 0 = (ASIN, 4, [])"
  "parse_op (CHR ''A'' # CHR ''C'' # CHR ''O'' # CHR ''S'' # rest) 0 = (ACOS, 4, [])"
  "parse_op (CHR ''A'' # CHR ''T'' # CHR ''A'' # CHR ''N'' # rest) 0 = (ATAN, 4, [])"
  "parse_op (CHR ''A'' # CHR ''C'' # CHR ''T'' # CHR ''N'' # rest) 0 = (ACTN, 4, [])"
  by (simp_all add: parse_op_def char_at_def rollback_def is_digit_def)

lemma parse_op_token:
  "(tok, op) \<in> set token_table \<Longrightarrow> parse_op (tok @ rest) 0 = (op, length tok, [])"
  by (auto simp add: token_table_def parse_op_tokens)

lemma process_line_mode:
  "fst (snd (process_line m current rad_on line)) =
     (case fst (parse_op line 0) of RAD \<Rightarrow> True | DEG \<Rightarrow> False | _ \<Rightarrow> rad_on)"
proof (cases "parse_op line 0")
  case (fields op i d)
  then show ?thesis
    by (cases op) (simp_all add: process_line_def split: prod.splits)
qed


lemma parse_op_known:
  assumes "parse_op line 0 = (op, i, d)" and "op \<noteq> ERR" and "op \<noteq> SET"
  shows "\<exists>tok. (tok, op) \<in> set token_table \<and> prefix tok line \<and> i = length tok \<and> d = []"
proof -
  from assms have r: "recognise_spec line = (op, i, d)"
    by (simp add: parse_op_spec)
  with assms(2,3) obtain tok op' where
    f: "find (\<lambda>(tok, op). prefix tok line) token_table = Some (tok, op')"
    by (auto simp add: recognise_spec_def split: if_splits option.splits)
  with r assms(3) have e: "op' = op" "i = length tok" "d = []"
    by (auto simp add: recognise_spec_def split: if_splits)
  from f have "(tok, op') \<in> set token_table \<and> prefix tok line"
    by (auto simp add: find_Some_iff in_set_conv_nth)
  with e show ?thesis
    by blast
qed

lemma token_of_RAD_DEG:
  "(tok, RAD) \<in> set token_table \<Longrightarrow> tok = ''RAD''"
  "(tok, DEG) \<in> set token_table \<Longrightarrow> tok = ''DEG''"
  by (simp_all add: token_table_def)

lemma parse_op_RAD_iff: "fst (parse_op line 0) = RAD \<longleftrightarrow> prefix ''RAD'' line"
proof
  assume a: "fst (parse_op line 0) = RAD"
  obtain i d where "parse_op line 0 = (RAD, i, d)"
    using a by (cases "parse_op line 0") simp
  from parse_op_known [OF this] show "prefix ''RAD'' line"
    by (auto dest: token_of_RAD_DEG)
next
  assume "prefix ''RAD'' line"
  then obtain rest where "line = ''RAD'' @ rest"
    by (auto simp add: prefix_def)
  then show "fst (parse_op line 0) = RAD"
    by (simp add: parse_op_tokens)
qed

lemma parse_op_DEG_iff: "fst (parse_op line 0) = DEG \<longleftrightarrow> prefix ''DEG'' line"
proof
  assume a: "fst (parse_op line 0) = DEG"
  obtain i d where "parse_op line 0 = (DEG, i, d)"
    using a by (cases "parse_op line 0") simp
  from parse_op_known [OF this] show "prefix ''DEG'' line"
    by (auto dest: token_of_RAD_DEG)
next
  assume "prefix ''DEG'' line"
  then obtain rest where "line = ''DEG'' @ rest"
    by (auto simp add: prefix_def)
  then show "fst (parse_op line 0) = DEG"
    by (simp add: parse_op_tokens)
qed

lemma process_line_toggle:
  "fst (snd (process_line m current rad_on line)) =
     (if prefix ''RAD'' line then True else if prefix ''DEG'' line then False else rad_on)"
proof -
  have "fst (parse_op line 0) \<noteq> RAD \<Longrightarrow> fst (parse_op line 0) \<noteq> DEG \<Longrightarrow>
      (case fst (parse_op line 0) of RAD \<Rightarrow> True | DEG \<Rightarrow> False | _ \<Rightarrow> rad_on) = rad_on"
    by (cases "fst (parse_op line 0)") simp_all
  then show ?thesis
    unfolding process_line_mode
    by (auto simp add: parse_op_RAD_iff [symmetric] parse_op_DEG_iff [symmetric])
qed

lemma run_lines_mode: "snd (run_lines m (current, rad_on) lines) = last_toggle rad_on lines"
proof (induction lines arbitrary: current rad_on)
  case Nil
  then show ?case by (simp add: last_toggle_def)
next
  case (Cons line lines)
  obtain r rad_on' d where p: "process_line m current rad_on line = (r, rad_on', d)"
    by (cases "process_line m current rad_on line")
  then have "rad_on' = (if prefix ''RAD'' line then True
      else if prefix ''DEG'' line then False else rad_on)"
    using process_line_toggle [of m current rad_on line] by simp
  with p Cons.IH [of r rad_on'] show ?case
    by (simp add: last_toggle_def)
qed

lemma parse_op_digit:
  "i < length line \<Longrightarrow> is_digit (line ! i) \<Longrightarrow> parse_op line i = (SET, i, [])"
  by (simp add: parse_op_def char_at_def)

lemma digit_not_space: "is_digit c \<Longrightarrow> \<not> isspace c"
  by (auto simp add: is_digit_def isspace_def)

lemma parse_op_unknown:
  "\<not> leading_token_known line \<Longrightarrow> parse_op line 0 = (ERR, 0, [Unknown_operation line])"
proof -
  assume a: "\<not> leading_token_known line"
  then have "find (\<lambda>(tok, op). prefix tok line) token_table = None"
    by (auto simp add: leading_token_known_def find_None_iff)
  with a show ?thesis
    by (auto simp add: parse_op_spec recognise_spec_def leading_token_known_def)
qed

section \<open>Lines\<close>

text \<open>
  C2: a line whose leading token is no digit, symbol or mnemonic writes exactly one
  diagnostic, which names the line, and leaves the accumulator and the angle mode
  unchanged: \<open>ERR\<close> has arity 0 and \<open>nullary\<close> passes the accumulator through.
\<close>

theorem unknown_token_is_noop:
  "\<not> leading_token_known line \<Longrightarrow>
     process_line m current rad_on line = (current, rad_on, [Unknown_operation line]) \<and>
     arity ERR = 0 \<and> nullary current ERR rad_on = (current, rad_on)"
  by (simp add: process_line_def parse_op_unknown)

theorem unknown_token_is_noop_witness:
  "\<not> leading_token_known ''XYZ'' \<and>
   process_line ieee_fpu dbl_10 True ''XYZ'' = (dbl_10, True, [Unknown_operation ''XYZ''])"
proof -
  have h: "\<not> leading_token_known ''XYZ''"
    by (simp add: leading_token_known_def token_table_def is_digit_def)
  from h unknown_token_is_noop [OF h, of ieee_fpu dbl_10 True] show ?thesis
    by simp
qed

text \<open>
  C7: on a digit the recogniser returns \<open>SET\<close> with the cursor back on the digit,
  whatever follows it, and a line that starts with a digit sets the accumulator to the
  value that \<open>parse_arg\<close> reads from the start of that line.
\<close>

theorem leading_digit_is_set:
  "(i < length line \<and> is_digit (line ! i) \<longrightarrow> parse_op line i = (SET, i, [])) \<and>
   (line \<noteq> [] \<and> is_digit (hd line) \<longrightarrow>
      process_line m current rad_on line =
        (case parse_arg m line 0 of (arg, j, d) \<Rightarrow> (arg, rad_on, d)))"
proof (intro conjI impI)
  assume "i < length line \<and> is_digit (line ! i)"
  then show "parse_op line i = (SET, i, [])"
    by (simp add: parse_op_digit)
next
  assume a: "line \<noteq> [] \<and> is_digit (hd line)"
  then have l: "0 < length line"
    by simp
  from a have d: "is_digit (line ! 0)"
    by (cases line) simp_all
  from l d have p: "parse_op line 0 = (SET, 0, [])"
    by (rule parse_op_digit)
  from d l have s: "skip_ws line 0 = 0"
    by (simp add: skip_ws.simps [of line 0] digit_not_space)
  show "process_line m current rad_on line =
        (case parse_arg m line 0 of (arg, j, d) \<Rightarrow> (arg, rad_on, d))"
    by (simp add: process_line_def p s split: prod.splits)
qed

theorem leading_digit_is_set_witness:
  "(0::nat) < length ''42.5'' \<and> is_digit (''42.5'' ! 0) \<and> parse_op ''42.5'' 0 = (SET, 0, []) \<and>
   ''42.5'' \<noteq> [] \<and> is_digit (hd ''42.5'') \<and>
   process_line ieee_fpu dbl_1 False ''42.5'' =
     (case parse_arg ieee_fpu ''42.5'' 0 of (arg, j, d) \<Rightarrow> (arg, False, d))"
proof -
  have h: "(0::nat) < length ''42.5'' \<and> is_digit (''42.5'' ! 0)"
    "''42.5'' \<noteq> [] \<and> is_digit (hd ''42.5'')"
    by (simp_all add: is_digit_def)
  from h leading_digit_is_set [of 0 "''42.5''" ieee_fpu dbl_1 False] show ?thesis
    by blast
qed

lemma last_toggle_Cons:
  "last_toggle rad_on (line # lines) =
     last_toggle (if prefix ''RAD'' line then True
                  else if prefix ''DEG'' line then False else rad_on) lines"
  by (simp add: last_toggle_def)

lemma last_toggle_stays_True:
  "\<forall>l \<in> set lines. \<not> prefix ''DEG'' l \<Longrightarrow> last_toggle True lines = True"
  by (induction lines) (simp_all add: last_toggle_Cons, simp add: last_toggle_def)

lemma last_toggle_stays_False:
  "\<forall>l \<in> set lines. \<not> prefix ''RAD'' l \<Longrightarrow> last_toggle False lines = False"
  by (induction lines) (simp_all add: last_toggle_Cons, simp add: last_toggle_def)

lemma process_line_RAD_DEG:
  "process_line m current rad_on ''RAD'' = (current, True, [])"
  "process_line m current rad_on ''DEG'' = (current, False, [])"
  by (simp_all add: process_line_def parse_op_tokens)

text \<open>
  C8: \<open>RAD\<close> sets the angle mode to radians and \<open>DEG\<close> to degrees, with the
  accumulator unchanged; a line recognised as any other operation leaves the mode as it
  is; so after any list of lines the mode is the one set by the last \<open>RAD\<close> or \<open>DEG\<close>
  line, or the initial one, and a repeated toggle changes nothing.
\<close>

theorem angle_mode_toggles:
  "process_line m current rad_on ''RAD'' = (current, True, []) \<and>
   process_line m current rad_on ''DEG'' = (current, False, []) \<and>
   (fst (parse_op line 0) \<noteq> RAD \<and> fst (parse_op line 0) \<noteq> DEG \<longrightarrow>
      fst (snd (process_line m current rad_on line)) = rad_on) \<and>
   snd (run_lines m (current, rad_on) lines) = last_toggle rad_on lines \<and>
   ((\<forall>l \<in> set lines. \<not> prefix ''DEG'' l) \<longrightarrow>
      snd (run_lines m (current, rad_on) (''RAD'' # lines)) = True) \<and>
   ((\<forall>l \<in> set lines. \<not> prefix ''RAD'' l) \<longrightarrow>
      snd (run_lines m (current, rad_on) (''DEG'' # lines)) = False) \<and>
   run_lines m (current, rad_on) [''RAD'', ''RAD''] = run_lines m (current, rad_on) [''RAD''] \<and>
   run_lines m (current, rad_on) [''DEG'', ''DEG''] = run_lines m (current, rad_on) [''DEG'']"
proof -
  have a: "fst (parse_op line 0) \<noteq> RAD \<and> fst (parse_op line 0) \<noteq> DEG \<longrightarrow>
      fst (snd (process_line m current rad_on line)) = rad_on"
    by (simp add: process_line_toggle parse_op_RAD_iff parse_op_DEG_iff)
  have b: "(\<forall>l \<in> set lines. \<not> prefix ''DEG'' l) \<longrightarrow>
      snd (run_lines m (current, rad_on) (''RAD'' # lines)) = True"
    by (simp add: run_lines_mode last_toggle_Cons last_toggle_stays_True del: run_lines.simps)
  have c: "(\<forall>l \<in> set lines. \<not> prefix ''RAD'' l) \<longrightarrow>
      snd (run_lines m (current, rad_on) (''DEG'' # lines)) = False"
    by (simp add: run_lines_mode last_toggle_Cons last_toggle_stays_False del: run_lines.simps)
  have d: "run_lines m (current, rad_on) [''RAD'', ''RAD''] = run_lines m (current, rad_on) [''RAD'']"
    "run_lines m (current, rad_on) [''DEG'', ''DEG''] = run_lines m (current, rad_on) [''DEG'']"
    by (simp_all add: process_line_RAD_DEG)
  show ?thesis
    by (intro conjI) (rule process_line_RAD_DEG a run_lines_mode b c d)+
qed

theorem angle_mode_toggles_witness:
  "fst (parse_op ''SIN'' 0) \<noteq> RAD \<and> fst (parse_op ''SIN'' 0) \<noteq> DEG \<and>
   fst (snd (process_line ieee_fpu dbl_1 True ''SIN'')) = True \<and>
   \<not> prefix ''DEG'' ''5'' \<and> \<not> prefix ''DEG'' ''SIN'' \<and> \<not> prefix ''DEG'' ''+ 2'' \<and>
   snd (run_lines ieee_fpu (dbl_1, False) [''RAD'', ''5'', ''SIN'', ''+ 2'']) = True \<and>
   \<not> prefix ''RAD'' ''5'' \<and> \<not> prefix ''RAD'' ''SIN'' \<and> \<not> prefix ''RAD'' ''+ 2'' \<and>
   snd (run_lines ieee_fpu (dbl_1, True) [''DEG'', ''5'', ''SIN'', ''+ 2'']) = False"
proof -
  have h1: "fst (parse_op ''SIN'' 0) \<noteq> RAD \<and> fst (parse_op ''SIN'' 0) \<noteq> DEG"
    by (simp add: parse_op_tokens)
  have h2: "\<not> prefix ''DEG'' ''5'' \<and> \<not> prefix ''DEG'' ''SIN'' \<and> \<not> prefix ''DEG'' ''+ 2''"
    "\<not> prefix ''RAD'' ''5'' \<and> \<not> prefix ''RAD'' ''SIN'' \<and> \<not> prefix ''RAD'' ''+ 2''"
    by simp_all
  then have h3: "\<forall>l \<in> set [''5'', ''SIN'', ''+ 2'']. \<not> prefix ''DEG'' l"
    "\<forall>l \<in> set [''5'', ''SIN'', ''+ 2'']. \<not> prefix ''RAD'' l"
    by simp_all
  from h1 h2 h3
    angle_mode_toggles [of ieee_fpu dbl_1 True "''SIN''" "[''5'', ''SIN'', ''+ 2'']"]
    angle_mode_toggles [of ieee_fpu dbl_1 False "''SIN''" "[''5'', ''SIN'', ''+ 2'']"]
  show ?thesis
    by blast
qed

lemma unary_diag:
  "Suffix_left s \<notin> set (snd (unary m current op rad_on))"
  "Unknown_operation s \<notin> set (snd (unary m current op rad_on))"
  by (cases op; simp)+

lemma parse_op_diag:
  "snd (snd (parse_op line 0)) = [] \<or> snd (snd (parse_op line 0)) = [Unknown_operation line]"
  by (simp add: parse_op_spec recognise_spec_def split: option.splits prod.splits)

lemma arity_cases: "arity op = 0 \<or> arity op = 1 \<or> arity op = 2"
  by (cases op) simp_all

lemma suffix_diag_arity:
  assumes "Suffix_left s \<in> set (snd (snd (process_line m current rad_on line)))"
  shows "arity (fst (parse_op line 0)) = 2"
proof (rule ccontr)
  assume n: "arity (fst (parse_op line 0)) \<noteq> 2"
  obtain op i d where p: "parse_op line 0 = (op, i, d)"
    by (cases "parse_op line 0")
  with parse_op_diag [of line] have d: "Suffix_left s \<notin> set d"
    by auto
  from n p arity_cases [of op] have "arity op = 0 \<or> arity op = 1"
    by simp
  then have "Suffix_left s \<notin> set (snd (snd (process_line m current rad_on line)))"
    using d p unary_diag(1) [of s m current op rad_on]
    by (auto simp add: process_line_def split: prod.splits)
  with assms show False
    by simp
qed

text \<open>
  C10: for a line whose prefix is a nullary or unary token, the characters after the
  token are silently ignored: no diagnostic about them is written, neither for an
  unconsumed suffix nor for an unknown operation, and \<open>process_line\<close> returns what it
  returns for the token alone, diagnostics included, so that the only diagnostics are
  those of the operation itself. For every line, a diagnostic about an unconsumed suffix
  is written only when the operation has arity 2.
\<close>

theorem trailing_characters_ignored:
  "((tok, op) \<in> set token_table \<and> arity op < 2 \<longrightarrow>
      process_line m current rad_on (tok @ rest) = process_line m current rad_on tok \<and>
      snd (snd (process_line m current rad_on (tok @ rest))) =
        (if arity op = 1 then snd (unary m current op rad_on) else []) \<and>
      (\<forall>s. Suffix_left s \<notin> set (snd (snd (process_line m current rad_on (tok @ rest)))) \<and>
           Unknown_operation s \<notin> set (snd (snd (process_line m current rad_on (tok @ rest)))))) \<and>
   (Suffix_left s \<in> set (snd (snd (process_line m current rad_on line))) \<longrightarrow>
      arity (fst (parse_op line 0)) = 2)"
proof (intro conjI impI)
  assume a: "(tok, op) \<in> set token_table \<and> arity op < 2"
  then have p: "parse_op (tok @ rest) 0 = (op, length tok, [])"
    by (simp add: parse_op_token)
  from a have q: "parse_op tok 0 = (op, length tok, [])"
    using parse_op_token [of tok op "[]"] by simp
  from a have r: "arity op = 0 \<or> arity op = 1"
    by auto
  from r show "process_line m current rad_on (tok @ rest) = process_line m current rad_on tok"
    by (auto simp add: process_line_def p q)
  from r show e: "snd (snd (process_line m current rad_on (tok @ rest))) =
        (if arity op = 1 then snd (unary m current op rad_on) else [])"
    by (auto simp add: process_line_def p split: prod.splits)
  from r show "\<forall>s. Suffix_left s \<notin> set (snd (snd (process_line m current rad_on (tok @ rest)))) \<and>
           Unknown_operation s \<notin> set (snd (snd (process_line m current rad_on (tok @ rest))))"
    unfolding e by (auto simp add: unary_diag)
next
  assume "Suffix_left s \<in> set (snd (snd (process_line m current rad_on line)))"
  then show "arity (fst (parse_op line 0)) = 2"
    by (rule suffix_diag_arity)
qed

theorem trailing_characters_ignored_witness:
  "(''SIN'', SIN) \<in> set token_table \<and> arity SIN < 2 \<and>
   process_line ieee_fpu dbl_1 False ''SINxyz'' = process_line ieee_fpu dbl_1 False ''SIN'' \<and>
   snd (snd (process_line ieee_fpu dbl_1 False ''SINxyz'')) = [] \<and>
   Suffix_left ''x'' \<in> set (snd (snd (process_line ieee_fpu dbl_1 False ''+ 2x''))) \<and>
   arity (fst (parse_op ''+ 2x'' 0)) = 2"
proof -
  have h1: "(''SIN'', SIN) \<in> set token_table \<and> arity SIN < 2"
    by (simp add: token_table_def)
  have h2: "Suffix_left ''x'' \<in> set (snd (snd (process_line ieee_fpu dbl_1 False ''+ 2x'')))"
    by (simp add: process_line_def parse_op_tokens parse_arg_def skip_ws.simps isspace_def
        parse_arg_loop.simps is_digit_def max_decimal_digits_def)
  have a: "''SIN'' @ ''xyz'' = ''SINxyz''"
    by simp
  note t = trailing_characters_ignored
    [of "''SIN''" SIN ieee_fpu dbl_1 False "''xyz''" "''x''" "''+ 2x''", unfolded a]
  from h1 t have e1: "process_line ieee_fpu dbl_1 False ''SINxyz'' =
      process_line ieee_fpu dbl_1 False ''SIN''"
    by blast
  from h1 t have "snd (snd (process_line ieee_fpu dbl_1 False ''SINxyz'')) =
      (if arity SIN = 1 then snd (unary ieee_fpu dbl_1 SIN False) else [])"
    by blast
  then have e2: "snd (snd (process_line ieee_fpu dbl_1 False ''SINxyz'')) = []"
    by simp
  from h2 t have e3: "arity (fst (parse_op ''+ 2x'' 0)) = 2"
    by blast
  from h1 h2 e1 e2 e3 show ?thesis
    by blast
qed

text \<open>
  \<open>SQRTxyz\<close> at -4 writes the domain diagnostic of the square root and nothing else,
  as \<open>SQRT\<close> alone does.
\<close>

lemma example_sqrt_with_trailing_characters:
  "process_line ieee_fpu 0xC010000000000000 False ''SQRTxyz'' =
     (0xC010000000000000, False, [Bad_SQRT 0xC010000000000000])"
  "process_line ieee_fpu 0xC010000000000000 False ''SQRT'' =
     (0xC010000000000000, False, [Bad_SQRT 0xC010000000000000])"
  by (simp_all add: process_line_def parse_op_tokens fgt_def flt_def fkey_def dbl_0_def
      magnitude_def)

section \<open>The argument parser\<close>

lemmas parse_arg_eval =
  parse_arg_def parse_arg_loop.simps is_digit_def max_decimal_digits_def digit_value_def
  dbl_0_def dbl_1_def dbl_10_def ieee_eval


lemma parse_arg_loop_scan:
  "i \<le> length line \<Longrightarrow>
   parse_arg_loop m line res count good integer fraction i =
     (if good then
        (case scan_literal m (drop i line) res count integer fraction of (v, n) \<Rightarrow> (v, i + n))
      else (res, i))"
proof (induction m line res count good integer fraction i rule: parse_arg_loop.induct)
  case (1 m line res count good integer fraction i)
  show ?case
  proof (cases "good \<and> i < length line \<and> count < max_decimal_digits")
    case False
    then show ?thesis
      using "1.prems"
      by (cases "drop i line")
        (auto simp add: parse_arg_loop.simps [of m line res count good integer fraction i]
          scan_literal.simps(2))
  next
    case True
    then have d: "drop i line = line ! i # drop (Suc i) line"
      by (simp add: Cons_nth_drop_Suc)
    from True have s: "Suc i \<le> length line"
      by simp
    show ?thesis
      using True s "1.IH"
      by (subst parse_arg_loop.simps)
        (auto simp add: d scan_literal.simps(2) split: prod.splits)
  qed
qed

lemma parse_arg_scan:
  "i \<le> length line \<Longrightarrow>
   parse_arg m line i =
     (case scan_literal m (drop i line) dbl_0 0 True dbl_1 of
        (v, n) \<Rightarrow> (v, i + n,
           if i + n < length line then [Suffix_left (drop (i + n) line)] else []))"
  by (simp add: parse_arg_def parse_arg_loop_scan split: prod.splits)

lemma scan_literal_props:
  "scan_literal m cs res count integer fraction = (v, n) \<Longrightarrow> count \<le> max_decimal_digits \<Longrightarrow>
     n \<le> length cs \<and> (\<forall>c \<in> set (take n cs). is_digit c \<or> c = CHR ''.'') \<and>
     count + length (filter is_digit (take n cs)) \<le> max_decimal_digits \<and>
     (n < length cs \<longrightarrow>
        count + length (filter is_digit (take n cs)) = max_decimal_digits \<or>
        \<not> (is_digit (cs ! n) \<or> cs ! n = CHR ''.''))"
proof (induction cs arbitrary: res count integer fraction v n)
  case Nil
  then show ?case by simp
next
  case (Cons c cs)
  show ?case
  proof (cases "count < max_decimal_digits")
    case False
    with Cons.prems show ?thesis
      by (auto simp add: scan_literal.simps(2))
  next
    case True
    note budget = this
    show ?thesis
    proof (cases "is_digit c")
      case True
      with budget Cons.prems obtain res' fraction' n' where
        r: "scan_literal m cs res' (count + 1) integer fraction' = (v, n')" and n: "n = n' + 1"
        by (auto simp add: scan_literal.simps(2) split: if_splits prod.splits)
      from budget have "count + 1 \<le> max_decimal_digits"
        by simp
      from Cons.IH [OF r this] True n show ?thesis
        by auto
    next
      case False
      note nodigit = this
      show ?thesis
      proof (cases "c = CHR ''.''")
        case True
        with budget nodigit Cons.prems obtain n' where
          r: "scan_literal m cs res count False fraction = (v, n')" and n: "n = n' + 1"
          by (auto simp add: scan_literal.simps(2) split: if_splits prod.splits)
        from Cons.IH [OF r Cons.prems(2)] True nodigit n show ?thesis
          by auto
      next
        case False
        with budget nodigit Cons.prems show ?thesis
          by (auto simp add: scan_literal.simps(2))
      qed
    qed
  qed
qed

lemma scan_literal_suffix:
  "scan_literal m cs res count integer fraction = (v, n) \<Longrightarrow> count \<le> max_decimal_digits \<Longrightarrow>
   count + length (filter is_digit (take n cs)) = max_decimal_digits \<or> sfx = [] \<or>
     \<not> (is_digit (hd sfx) \<or> hd sfx = CHR ''.'') \<Longrightarrow>
   scan_literal m (take n cs @ sfx) res count integer fraction = (v, n)"
proof (induction cs arbitrary: res count integer fraction v n)
  case Nil
  then show ?case
    by (cases sfx) (auto simp add: scan_literal.simps(2))
next
  case (Cons c cs)
  show ?case
  proof (cases "count < max_decimal_digits")
    case False
    with Cons.prems show ?thesis
      by (cases sfx) (auto simp add: scan_literal.simps(2))
  next
    case True
    note budget = this
    show ?thesis
    proof (cases "is_digit c")
      case True
      with budget Cons.prems obtain res' fraction' n' where
        r: "scan_literal m cs res' (count + 1) integer fraction' = (v, n')" and n: "n = n' + 1"
        and e: "scan_literal m (c # take n' cs @ sfx) res count integer fraction =
          (case scan_literal m (take n' cs @ sfx) res' (count + 1) integer fraction' of
             (v, k) \<Rightarrow> (v, k + 1))"
        by (auto simp add: scan_literal.simps(2) split: if_splits prod.splits)
      from budget have b: "count + 1 \<le> max_decimal_digits"
        by simp
      from Cons.prems(3) True n have
        "count + 1 + length (filter is_digit (take n' cs)) = max_decimal_digits \<or> sfx = [] \<or>
          \<not> (is_digit (hd sfx) \<or> hd sfx = CHR ''.'')"
        by auto
      from Cons.IH [OF r b this] e n show ?thesis
        by simp
    next
      case False
      note nodigit = this
      show ?thesis
      proof (cases "c = CHR ''.''")
        case True
        with budget nodigit Cons.prems obtain n' where
          r: "scan_literal m cs res count False fraction = (v, n')" and n: "n = n' + 1"
          by (auto simp add: scan_literal.simps(2) split: if_splits prod.splits)
        from Cons.prems(3) nodigit n have
          "count + length (filter is_digit (take n' cs)) = max_decimal_digits \<or> sfx = [] \<or>
            \<not> (is_digit (hd sfx) \<or> hd sfx = CHR ''.'')"
          by auto
        from Cons.IH [OF r Cons.prems(2) this] True nodigit budget n show ?thesis
          by (simp add: scan_literal.simps(2))
      next
        case False
        with budget nodigit Cons.prems have n: "n = 0" "v = res"
          by (auto simp add: scan_literal.simps(2))
        with Cons.prems(3) budget show ?thesis
          by (cases sfx) (auto simp add: scan_literal.simps(2))
      qed
    qed
  qed
qed

lemma scan_literal_dot:
  "\<forall>c \<in> set seg. is_digit c \<or> c = CHR ''.'' \<Longrightarrow>
   count + length (filter is_digit seg) < max_decimal_digits \<Longrightarrow>
   \<not> integer \<or> CHR ''.'' \<in> set seg \<Longrightarrow>
   scan_literal m (seg @ CHR ''.'' # rest) res count integer fraction =
     (case scan_literal m (seg @ rest) res count integer fraction of (v, n) \<Rightarrow> (v, n + 1))"
proof (induction seg arbitrary: res count integer fraction)
  case Nil
  then show ?case
    by (simp add: scan_literal.simps(2) is_digit_def)
next
  case (Cons c seg)
  show ?case
  proof (cases "is_digit c")
    case True
    then have "c \<noteq> CHR ''.''"
      by (auto simp add: is_digit_def)
    with Cons.prems True show ?thesis
      by (auto simp add: scan_literal.simps(2) Cons.IH split: prod.splits)
  next
    case False
    with Cons.prems have "c = CHR ''.''"
      by simp
    with Cons.prems False show ?thesis
      by (auto simp add: scan_literal.simps(2) Cons.IH split: prod.splits)
  qed
qed

lemma scan_literal_consumes:
  "\<forall>c \<in> set seg. is_digit c \<or> c = CHR ''.'' \<Longrightarrow>
   count + length (filter is_digit seg) < max_decimal_digits \<Longrightarrow>
   scan_literal m (seg @ rest) res count integer fraction = (v, n) \<Longrightarrow> length seg \<le> n"
proof (induction seg arbitrary: res count integer fraction v n)
  case Nil
  then show ?case by simp
next
  case (Cons c seg)
  show ?case
  proof (cases "is_digit c")
    case True
    with Cons.prems obtain res' fraction' n' where
      r: "scan_literal m (seg @ rest) res' (count + 1) integer fraction' = (v, n')"
      and n: "n = n' + 1"
      by (auto simp add: scan_literal.simps(2) split: if_splits prod.splits)
    from Cons.prems True have "count + 1 + length (filter is_digit seg) < max_decimal_digits"
      by simp
    with Cons.IH [OF _ this r] Cons.prems(1) n show ?thesis
      by simp
  next
    case False
    with Cons.prems(1) have dot: "c = CHR ''.''"
      by simp
    with False Cons.prems obtain n' where
      r: "scan_literal m (seg @ rest) res count False fraction = (v, n')" and n: "n = n' + 1"
      by (auto simp add: scan_literal.simps(2) split: if_splits prod.splits)
    from Cons.prems False have "count + length (filter is_digit seg) < max_decimal_digits"
      by simp
    with Cons.IH [OF _ this r] Cons.prems(1) n show ?thesis
      by simp
  qed
qed

text \<open>
  C1, as stated: at a second dot the parser stops without consuming it, so value and
  cursor are those of the line cut before that dot. This fails for \<open>1.2.3\<close> from
  cursor 0: the second dot is at index 3, the cut line ends the parse at cursor 3, and
  the whole line is consumed up to cursor 5, with the value 1.23 and not 1.2. The case
  \<open>'.'\<close> of the switch sets \<open>integer = false\<close> and advances the cursor whether or not a
  dot came before.
\<close>

theorem second_dot_counterexample:
  "''1.2.3'' ! 3 = CHR ''.'' \<and> CHR ''.'' \<in> set (take 3 ''1.2.3'') \<and>
   parse_arg ieee_fpu ''1.2.3'' 0 = (0x3FF3AE147AE147AE, 5, []) \<and>
   parse_arg ieee_fpu (take 3 ''1.2.3'') 0 = (0x3FF3333333333333, 3, []) \<and>
   parse_arg ieee_fpu ''1.2.3'' 0 \<noteq> parse_arg ieee_fpu (take 3 ''1.2.3'') 0"
proof -
  have a: "parse_arg ieee_fpu ''1.2.3'' 0 = (0x3FF3AE147AE147AE, 5, [])"
    by (simp add: parse_arg_eval)
  have b: "parse_arg ieee_fpu ''1.2'' 0 = (0x3FF3333333333333, 3, [])"
    by (simp add: parse_arg_eval)
  show ?thesis
    by (simp add: a b)
qed

text \<open>
  C1, amended: a second dot met while scanning a literal is consumed and parsing goes
  on in the fractional part. When the characters from the cursor up to the dot are
  digits and dots, with a dot and fewer than 10 digits among them, the value and the
  diagnostic are those of the line with that dot deleted, and the cursor is one more.
\<close>

theorem second_dot_is_consumed:
  assumes "i \<le> length pre"
    and "\<forall>c \<in> set (drop i pre). is_digit c \<or> c = CHR ''.''"
    and "CHR ''.'' \<in> set (drop i pre)"
    and "length (filter is_digit (drop i pre)) < max_decimal_digits"
  shows "parse_arg m (pre @ CHR ''.'' # rest) i =
    (case parse_arg m (pre @ rest) i of (v, j, d) \<Rightarrow> (v, j + 1, d))"
proof -
  obtain v n where s: "scan_literal m (drop i pre @ rest) dbl_0 0 True dbl_1 = (v, n)"
    by (cases "scan_literal m (drop i pre @ rest) dbl_0 0 True dbl_1")
  from assms(2,4) s have n: "length (drop i pre) \<le> n"
    using scan_literal_consumes [of "drop i pre" 0 m rest dbl_0 True dbl_1 v n] by simp
  from assms(2,3,4) s have
    t: "scan_literal m (drop i pre @ CHR ''.'' # rest) dbl_0 0 True dbl_1 = (v, n + 1)"
    using scan_literal_dot [of "drop i pre" 0 True m rest dbl_0 dbl_1] by simp
  from assms(1) n have "i + n + 1 - length pre = Suc (i + n - length pre)"
    by simp
  with assms(1) n have
    "drop (i + n + 1) (pre @ CHR ''.'' # rest) = drop (i + n) (pre @ rest)"
    by simp
  with assms(1) s t show ?thesis
    by (simp add: parse_arg_scan)
qed

theorem second_dot_is_consumed_witness:
  "(0::nat) \<le> length ''1.2'' \<and> CHR ''.'' \<in> set (drop 0 ''1.2'') \<and>
   length (filter is_digit (drop 0 ''1.2'')) < max_decimal_digits \<and>
   parse_arg ieee_fpu ''1.2.3'' 0 =
     (case parse_arg ieee_fpu ''1.23'' 0 of (v, j, d) \<Rightarrow> (v, j + 1, d))"
proof -
  have h1: "(0::nat) \<le> length ''1.2''"
    by simp
  have h2: "\<forall>c \<in> set (drop 0 ''1.2''). is_digit c \<or> c = CHR ''.''"
    by (simp add: is_digit_def)
  have h3: "CHR ''.'' \<in> set (drop 0 ''1.2'')"
    by simp
  have h4: "length (filter is_digit (drop 0 ''1.2'')) < max_decimal_digits"
    by (simp add: is_digit_def max_decimal_digits_def)
  have a: "''1.2'' @ CHR ''.'' # ''3'' = ''1.2.3''" "''1.2'' @ ''3'' = ''1.23''"
    by simp_all
  from h1 h3 h4 second_dot_is_consumed [OF h1 h2 h3 h4, of ieee_fpu "''3''", unfolded a]
  show ?thesis
    by blast
qed

text \<open>
  C9: from a cursor inside the line, \<open>parse_arg\<close> consumes only digits and dots and at
  most 10 digits; it stops before the end of the line only when 10 digits are consumed
  or at a character that is neither a digit nor a dot; the diagnostic is the suffix left,
  if any; and the value and cursor stay the same when the suffix left is replaced by
  another one that stops the parse in the same way, or by nothing.
\<close>

theorem parse_arg_budget:
  assumes "i \<le> length line" and "parse_arg m line i = (v, j, d)"
  shows "i \<le> j \<and> j \<le> length line \<and>
    (\<forall>k. i \<le> k \<and> k < j \<longrightarrow> is_digit (line ! k) \<or> line ! k = CHR ''.'') \<and>
    digits_consumed line i j \<le> max_decimal_digits \<and>
    (j < length line \<longrightarrow>
       digits_consumed line i j = max_decimal_digits \<or>
       \<not> (is_digit (line ! j) \<or> line ! j = CHR ''.'')) \<and>
    d = (if j < length line then [Suffix_left (drop j line)] else []) \<and>
    (\<forall>sfx. digits_consumed line i j = max_decimal_digits \<or> sfx = [] \<or>
         \<not> (is_digit (hd sfx) \<or> hd sfx = CHR ''.'') \<longrightarrow>
       parse_arg m (take j line @ sfx) i =
         (v, j, if sfx = [] then [] else [Suffix_left sfx]))"
proof -
  obtain n where s: "scan_literal m (drop i line) dbl_0 0 True dbl_1 = (v, n)"
    and j: "j = i + n"
    and d: "d = (if j < length line then [Suffix_left (drop j line)] else [])"
    using assms by (auto simp add: parse_arg_scan split: prod.splits)
  note p = scan_literal_props [OF s, simplified]
  from p j assms(1) have r: "i \<le> j" "j \<le> length line"
    by auto
  have c: "digits_consumed line i j = length (filter is_digit (take n (drop i line)))"
    by (simp add: digits_consumed_def j)
  have k: "\<forall>k. i \<le> k \<and> k < j \<longrightarrow> is_digit (line ! k) \<or> line ! k = CHR ''.''"
  proof (intro allI impI)
    fix k
    assume a: "i \<le> k \<and> k < j"
    with j p have "take n (drop i line) ! (k - i) \<in> set (take n (drop i line))"
      by (intro nth_mem) auto
    moreover from a j r have "take n (drop i line) ! (k - i) = line ! k"
      by auto
    ultimately show "is_digit (line ! k) \<or> line ! k = CHR ''.''"
      using p by auto
  qed
  have b: "digits_consumed line i j \<le> max_decimal_digits"
    using p by (simp add: c)
  have e: "j < length line \<longrightarrow>
       digits_consumed line i j = max_decimal_digits \<or>
       \<not> (is_digit (line ! j) \<or> line ! j = CHR ''.'')"
    using p j assms(1) c by auto
  have f: "\<forall>sfx. digits_consumed line i j = max_decimal_digits \<or> sfx = [] \<or>
         \<not> (is_digit (hd sfx) \<or> hd sfx = CHR ''.'') \<longrightarrow>
       parse_arg m (take j line @ sfx) i =
         (v, j, if sfx = [] then [] else [Suffix_left sfx])"
  proof (intro allI impI)
    fix sfx
    assume a: "digits_consumed line i j = max_decimal_digits \<or> sfx = [] \<or>
         \<not> (is_digit (hd sfx) \<or> hd sfx = CHR ''.'')"
    then have "scan_literal m (take n (drop i line) @ sfx) dbl_0 0 True dbl_1 = (v, n)"
      using scan_literal_suffix [OF s, of sfx] by (simp add: c)
    moreover from r j have "drop i (take j line @ sfx) = take n (drop i line) @ sfx"
      by (simp add: drop_take)
    moreover from r have "i \<le> length (take j line @ sfx)"
      by simp
    ultimately show "parse_arg m (take j line @ sfx) i =
         (v, j, if sfx = [] then [] else [Suffix_left sfx])"
      using r j by (simp add: parse_arg_scan)
  qed
  from r k b e d f show ?thesis
    by blast
qed

theorem parse_arg_budget_witness:
  "(0::nat) \<le> length ''12.5x'' \<and>
   parse_arg ieee_fpu ''12.5x'' 0 = (0x4029000000000000, 4, [Suffix_left ''x'']) \<and>
   digits_consumed ''12.5x'' 0 4 \<le> max_decimal_digits \<and>
   parse_arg ieee_fpu (take 4 ''12.5x'' @ '' y'') 0 =
     (0x4029000000000000, 4, [Suffix_left '' y'']) \<and>
   (0::nat) \<le> length ''12345678901'' \<and>
   parse_arg ieee_fpu ''12345678901'' 0 = (0x41D26580B4800000, 10, [Suffix_left ''1'']) \<and>
   digits_consumed ''12345678901'' 0 10 = max_decimal_digits \<and>
   parse_arg ieee_fpu (take 10 ''12345678901'' @ ''99'') 0 =
     (0x41D26580B4800000, 10, [Suffix_left ''99''])"
proof -
  have h0: "(0::nat) \<le> length ''12.5x''" "(0::nat) \<le> length ''12345678901''"
    by simp_all
  have h1: "parse_arg ieee_fpu ''12.5x'' 0 = (0x4029000000000000, 4, [Suffix_left ''x''])"
    by (simp add: parse_arg_eval)
  have h2: "parse_arg ieee_fpu ''12345678901'' 0 =
      (0x41D26580B4800000, 10, [Suffix_left ''1''])"
    by (simp add: parse_arg_eval)
  note t1 = parse_arg_budget [OF h0(1) h1]
  note t2 = parse_arg_budget [OF h0(2) h2]
  from t1 have a: "digits_consumed ''12.5x'' 0 4 \<le> max_decimal_digits"
    by blast
  have "'' y'' = [] \<or> \<not> (is_digit (hd '' y'') \<or> hd '' y'' = CHR ''.'')"
    by (simp add: is_digit_def)
  with t1 have b: "parse_arg ieee_fpu (take 4 ''12.5x'' @ '' y'') 0 =
      (0x4029000000000000, 4, if '' y'' = [] then [] else [Suffix_left '' y''])"
    by blast
  have c: "digits_consumed ''12345678901'' 0 10 = max_decimal_digits"
    by (simp add: digits_consumed_def is_digit_def max_decimal_digits_def)
  with t2 have d: "parse_arg ieee_fpu (take 10 ''12345678901'' @ ''99'') 0 =
      (0x41D26580B4800000, 10, if ''99'' = [] then [] else [Suffix_left ''99''])"
    by blast
  from h0 h1 h2 a b c d show ?thesis
    by simp
qed

section \<open>Runs of the calculator\<close>

lemmas line_eval =
  process_line_def parse_op_tokens parse_op_digit skip_ws.simps isspace_def parse_arg_eval

text \<open>
  The first example of the specification: the lines \<open>5\<close>, \<open>+3\<close> and \<open>*2\<close> from the
  initial state of \<open>main\<close> leave 16 in the accumulator.
\<close>

lemma example_5_plus_3_times_2:
  "run_lines ieee_fpu (dbl_0, False) [''5'', ''+3'', ''*2''] = (0x4030000000000000, False)"
  by (simp add: line_eval)

text \<open>
  The second and the fourth example: \<open>SQRT\<close> at -4 and \<open>/0\<close> at 10 write a diagnostic and
  leave the accumulator as it is.
\<close>

lemma example_sqrt_of_minus_4:
  "process_line ieee_fpu 0xC010000000000000 False ''SQRT'' =
     (0xC010000000000000, False, [Bad_SQRT 0xC010000000000000])"
  by (simp add: line_eval fgt_def flt_def fkey_def)

lemma example_division_by_0:
  "process_line ieee_fpu dbl_10 False ''/0'' = (dbl_10, False, [Bad_division dbl_0])"
  by (simp add: line_eval fne_def feq_def fkey_def)

text \<open>
  The lines \<open>2\<close>, \<open>ASIN\<close> and \<open>TAN\<close> from the initial state: the arcsine of 2 leaves
  infinity in the accumulator, and the tangent then returns the sentinel.
\<close>

lemma example_tan_after_asin:
  "run_lines ieee_fpu (dbl_0, False) [''2'', ''ASIN'', ''TAN''] = (inf_const, False)"
  by (simp add: line_eval to_radians_def fle_def fgt_def flt_def fabs_def fkey_def dbl_180_def
      M_PI_def)

end
